theory Spec2Isabelle
  imports Complex_Main
begin

section \<open>The traffic-light detector node (tl\_detector.py)\<close>

text \<open>
  A shallow embedding of the class \<open>TLDetector\<close> of
  \<^verbatim>\<open>ros/src/tl_detector/tl_detector.py\<close>. The object \<open>self\<close> is a record that every
  method takes and returns; a Python exception is the \<open>Inl\<close> side of a sum; the two
  outward effects of the node, publishing on \<^verbatim>\<open>/traffic_waypoint\<close> and calling the image
  classifier, are recorded as traces in the record.

  Coordinates are float64 in the source. A float64 value is modelled as the real
  number it denotes, so NaN and the infinities are outside this model; the distance
  that \<^verbatim>\<open>scipy\<close> computes between two points is a parameter of the model, with a
  binary64 instance for concrete runs.
\<close>

subsection \<open>Python values and exceptions\<close>

text \<open>
  The light state handled by the node is either an integer ID or the Python value
  \<^verbatim>\<open>False\<close> (returned by \<^verbatim>\<open>get_light_state\<close>). Python compares a bool with an int
  numerically: \<^verbatim>\<open>False == 0\<close> and \<^verbatim>\<open>True == 1\<close>.
\<close>

datatype pyval = PyBool bool | PyInt int

fun py_num :: "pyval \<Rightarrow> int" where
  "py_num (PyBool b) = (if b then 1 else 0)"
| "py_num (PyInt i) = i"

definition py_eq :: "pyval \<Rightarrow> pyval \<Rightarrow> bool" where
  "py_eq a b = (py_num a = py_num b)"

datatype error = UnboundLocalError | ValueError | AttributeError

subsection \<open>External collaborators\<close>

text \<open>
  The constants \<^verbatim>\<open>TrafficLight.RED\<close>, \<^verbatim>\<open>YELLOW\<close>, \<^verbatim>\<open>GREEN\<close> and \<^verbatim>\<open>UNKNOWN\<close> come from
  the message package \<^verbatim>\<open>styx_msgs\<close>, the classifier from \<^verbatim>\<open>light_classification\<close>, and
  the distance computation from \<^verbatim>\<open>scipy.spatial.distance\<close>; none is part of this file,
  so all are parameters of the model. The classifier (with the image decoding in front
  of it) is an opaque total function from a camera message to an integer ID.
  \<open>cdist_euclidean\<close> is the float64 number that \<^verbatim>\<open>cdist\<close> computes as the distance
  between two points.
\<close>

type_synonym point3 = "real \<times> real \<times> real"

record 'img env =
  RED :: int
  YELLOW :: int
  GREEN :: int
  UNKNOWN :: int
  get_classification :: "'img \<Rightarrow> int"
  cdist_euclidean :: "point3 \<Rightarrow> point3 \<Rightarrow> real"

text \<open>
  The exact Euclidean distance, which the computed one approximates.
\<close>

fun euclidean :: "point3 \<Rightarrow> point3 \<Rightarrow> real" where
  "euclidean (ux, uy, uz) (vx, vy, vz) = sqrt ((ux - vx)\<^sup>2 + (uy - vy)\<^sup>2 + (uz - vz)\<^sup>2)"

text \<open>
  The binary64 instance. \<open>fl64\<close> rounds a real to the nearest number with a 53-bit
  significand, ties to even; the exponent range is not bounded, so it agrees with
  IEEE 754 binary64 wherever the result is a normal number. \<open>euclidean_f64\<close> is the
  kernel of \<^verbatim>\<open>cdist\<close> for the Euclidean metric: \<^verbatim>\<open>s = 0; for k: d = u[k] - v[k];
  s = s + d * d; return sqrt(s)\<close>, every operation rounded.
\<close>

definition round_even :: "real \<Rightarrow> int" where
  "round_even x =
     (let f = \<lfloor>x\<rfloor>; r = x - of_int f in
      if r < 1 / 2 then f else if 1 / 2 < r then f + 1 else if even f then f else f + 1)"

definition fl64 :: "real \<Rightarrow> real" where
  "fl64 x =
     (if x = 0 then 0
      else (let u = 2 powi (\<lfloor>log 2 \<bar>x\<bar>\<rfloor> - 52) in of_int (round_even (x / u)) * u))"

definition sq_step :: "real \<Rightarrow> real \<Rightarrow> real \<Rightarrow> real" where
  "sq_step s u v = (let d = fl64 (u - v) in fl64 (s + fl64 (d * d)))"

fun euclidean_f64 :: "point3 \<Rightarrow> point3 \<Rightarrow> real" where
  "euclidean_f64 (ux, uy, uz) (vx, vy, vz) =
     fl64 (sqrt (sq_step (sq_step (sq_step 0 ux vx) uy vy) uz vz))"

text \<open>
  The environment of concrete runs: the values \<^verbatim>\<open>styx_msgs/TrafficLight\<close> gives the
  constants, and the binary64 distance.
\<close>

definition styx_env :: "('img \<Rightarrow> int) \<Rightarrow> 'img env" where
  "styx_env clf =
     \<lparr>RED = 0, YELLOW = 1, GREEN = 2, UNKNOWN = 4, get_classification = clf,
      cdist_euclidean = euclidean_f64\<rparr>"

subsection \<open>The detector object\<close>

text \<open>
  The fields of \<open>self\<close>. \<open>pose\<close> keeps the position of the last \<^verbatim>\<open>PoseStamped\<close>
  (nothing else of it is read), \<open>waypoints\<close> the positions of the last \<^verbatim>\<open>Lane\<close>,
  \<open>config\<close> the list \<^verbatim>\<open>self.config['stop_line_positions']\<close>. The attribute
  \<^verbatim>\<open>has_image\<close> is not set by \<^verbatim>\<open>__init__\<close>: \<open>None\<close> is the missing attribute.
  \<open>published\<close> is the trace of the messages sent on \<^verbatim>\<open>/traffic_waypoint\<close> and
  \<open>classified\<close> the trace of the images given to the classifier, oldest first.
  The fields \<^verbatim>\<open>lights\<close> and \<^verbatim>\<open>prev_light_loc\<close> are written and never read, and are
  left out.
\<close>

record 'img TLDetector =
  pose :: "point3 option"
  waypoints :: "point3 list option"
  camera_image :: "'img option"
  has_image :: "bool option"
  stop_lines :: "int list"
  config :: "(real \<times> real) list"
  state :: pyval
  last_state :: pyval
  last_wp :: int
  state_count :: int
  published :: "int list"
  classified :: "'img list"

definition STATE_COUNT_THRESHOLD :: int where
  "STATE_COUNT_THRESHOLD = 3"

definition init :: "'img env \<Rightarrow> (real \<times> real) list \<Rightarrow> 'img TLDetector" where
  "init e cfg =
     \<lparr>pose = None, waypoints = None, camera_image = None, has_image = None,
      stop_lines = [], config = cfg,
      state = PyInt (UNKNOWN e), last_state = PyInt (UNKNOWN e),
      last_wp = -1, state_count = 0, published = [], classified = []\<rparr>"

definition pose_cb :: "'img TLDetector \<Rightarrow> point3 \<Rightarrow> 'img TLDetector" where
  "pose_cb self msg = self\<lparr>pose := Some msg\<rparr>"

definition waypoints_cb :: "'img TLDetector \<Rightarrow> point3 list \<Rightarrow> 'img TLDetector" where
  "waypoints_cb self wps = self\<lparr>waypoints := Some wps\<rparr>"

subsection \<open>Nearest waypoint\<close>

text \<open>
  \<^verbatim>\<open>distance.cdist([node], waypoints)\<close> is the row of the computed distances from
  \<open>node\<close> to every waypoint, and \<^verbatim>\<open>.argmin()\<close> the index of the first occurrence of
  its minimum: a scan that replaces the best index only on a strictly smaller value.
  \<open>argmin\<close> is never applied to the empty list: \<open>get_closest_waypoint\<close> below raises
  before.
\<close>

definition cdist :: "'img env \<Rightarrow> point3 \<Rightarrow> point3 list \<Rightarrow> real list" where
  "cdist e node wps = map (cdist_euclidean e node) wps"

fun argmin_scan :: "real \<Rightarrow> nat \<Rightarrow> nat \<Rightarrow> real list \<Rightarrow> nat" where
  "argmin_scan mp min_ind i [] = min_ind"
| "argmin_scan mp min_ind i (x # xs) =
     (if x < mp then argmin_scan x i (Suc i) xs else argmin_scan mp min_ind (Suc i) xs)"

fun argmin :: "real list \<Rightarrow> nat" where
  "argmin [] = 0"
| "argmin (x # xs) = argmin_scan x 0 1 xs"

text \<open>
  With no path the \<^verbatim>\<open>else\<close> branch only logs, and \<^verbatim>\<open>return nearest_index\<close> then reads
  a local that was never bound: \<^verbatim>\<open>UnboundLocalError\<close>. With a path of no waypoints
  \<^verbatim>\<open>np.asarray([])\<close> is one-dimensional and \<^verbatim>\<open>cdist\<close> raises \<^verbatim>\<open>ValueError\<close>.
\<close>

definition get_closest_waypoint ::
  "'img env \<Rightarrow> 'img TLDetector \<Rightarrow> point3 \<Rightarrow> error + int" where
  "get_closest_waypoint e self position =
     (case waypoints self of
        None \<Rightarrow> Inl UnboundLocalError
      | Some wps \<Rightarrow>
          if wps = [] then Inl ValueError
          else Inr (int (argmin (cdist e position wps))))"

definition get_closest_stoplight_waypoint ::
  "'img env \<Rightarrow> 'img TLDetector \<Rightarrow> real \<times> real \<Rightarrow> error + int" where
  "get_closest_stoplight_waypoint e self stop_line_position =
     get_closest_waypoint e self (fst stop_line_position, snd stop_line_position, 0)"

text \<open>
  The list comprehension over the configured stop lines: the first call that raises
  ends it.
\<close>

fun closest_waypoints ::
  "'img env \<Rightarrow> 'img TLDetector \<Rightarrow> (real \<times> real) list \<Rightarrow> error + int list" where
  "closest_waypoints e self [] = Inr []"
| "closest_waypoints e self (p # ps) =
     (case get_closest_stoplight_waypoint e self p of
        Inl err \<Rightarrow> Inl err
      | Inr w \<Rightarrow>
          (case closest_waypoints e self ps of
             Inl err \<Rightarrow> Inl err
           | Inr ws \<Rightarrow> Inr (w # ws)))"

subsection \<open>Light state\<close>

text \<open>
  \<^verbatim>\<open>get_light_state\<close> ignores its argument \<open>light\<close>. Reading \<^verbatim>\<open>self.has_image\<close>
  before any frame raises \<^verbatim>\<open>AttributeError\<close>, as does decoding a missing image.
\<close>

definition get_light_state ::
  "'img env \<Rightarrow> 'img TLDetector \<Rightarrow> nat \<Rightarrow> (error + pyval) \<times> 'img TLDetector" where
  "get_light_state e self light =
     (case has_image self of
        None \<Rightarrow> (Inl AttributeError, self)
      | Some h \<Rightarrow>
          if \<not> h then (Inr (PyBool False), self)
          else
            (case camera_image self of
               None \<Rightarrow> (Inl AttributeError, self)
             | Some img \<Rightarrow>
                 (Inr (PyInt (get_classification e img)),
                  self\<lparr>classified := classified self @ [img]\<rparr>)))"

subsection \<open>Candidate selection\<close>

text \<open>
  The loop over \<^verbatim>\<open>enumerate(self.stop_lines)\<close>, with its variables \<open>light\<close> and
  \<open>light_wp\<close> as the loop state. \<open>min_idx_dist\<close> is assigned only right before the
  \<^verbatim>\<open>break\<close>, so every test of the loop sees its initial value.
\<close>

fun stop_line_loop ::
  "int \<Rightarrow> int \<Rightarrow> (nat \<times> int) list \<Rightarrow> nat option \<times> int \<Rightarrow> nat option \<times> int" where
  "stop_line_loop car_position min_idx_dist [] (light, light_wp) = (light, light_wp)"
| "stop_line_loop car_position min_idx_dist ((i, stop_line_idx) # rest) (light, light_wp) =
     (let idx_dist = stop_line_idx - car_position in
      if 0 < idx_dist \<and> idx_dist < min_idx_dist then (Some i, stop_line_idx)
      else stop_line_loop car_position min_idx_dist rest (None, light_wp))"

definition select_light :: "int \<Rightarrow> int list \<Rightarrow> nat option \<times> int" where
  "select_light car_position sls = stop_line_loop car_position 150 (enumerate 0 sls) (None, -1)"

definition process_traffic_lights ::
  "'img env \<Rightarrow> 'img TLDetector \<Rightarrow> (error + int \<times> pyval) \<times> 'img TLDetector" where
  "process_traffic_lights e self =
     (case closest_waypoints e self (config self) of
        Inl err \<Rightarrow> (Inl err, self)
      | Inr cws \<Rightarrow>
          (let self1 = self\<lparr>stop_lines := stop_lines self @ cws\<rparr> in
           case (case pose self1 of
                   None \<Rightarrow> Inr (None, -1)
                 | Some p \<Rightarrow>
                     (case get_closest_waypoint e self1 p of
                        Inl err \<Rightarrow> Inl err
                      | Inr car_position \<Rightarrow>
                          Inr (select_light car_position (stop_lines self1)))) of
             Inl err \<Rightarrow> (Inl err, self1)
           | Inr (light, light_wp) \<Rightarrow>
               (case light of
                  Some l \<Rightarrow>
                    (case get_light_state e self1 l of
                       (Inl err, self2) \<Rightarrow> (Inl err, self2)
                     | (Inr s, self2) \<Rightarrow> (Inr (light_wp, s), self2))
                | None \<Rightarrow> (Inr (-1, PyInt (UNKNOWN e)), self1))))"

subsection \<open>Debounce and the camera callback\<close>

definition committed_wp :: "'img env \<Rightarrow> int \<Rightarrow> pyval \<Rightarrow> int" where
  "committed_wp e light_wp s =
     (if py_eq s (PyInt (RED e)) \<or> py_eq s (PyInt (YELLOW e)) then light_wp else -1)"

text \<open>Lines 92 to 102 of \<^verbatim>\<open>image_cb\<close>: the three branches, then the increment.\<close>

definition debounce :: "'img env \<Rightarrow> 'img TLDetector \<Rightarrow> int \<times> pyval \<Rightarrow> 'img TLDetector" where
  "debounce e self r =
     (let light_wp = fst r; s = snd r;
          self1 =
            (if \<not> py_eq (state self) s then self\<lparr>state_count := 0, state := s\<rparr>
             else if state_count self \<ge> STATE_COUNT_THRESHOLD then
               self\<lparr>last_state := state self,
                    last_wp := committed_wp e light_wp s,
                    published := published self @ [committed_wp e light_wp s]\<rparr>
             else self\<lparr>published := published self @ [last_wp self]\<rparr>)
      in self1\<lparr>state_count := state_count self1 + 1\<rparr>)"

text \<open>
  The callback: an exception of \<^verbatim>\<open>process_traffic_lights\<close> leaves it before the
  debounce, with the fields written so far kept.
\<close>

definition image_cb ::
  "'img env \<Rightarrow> 'img TLDetector \<Rightarrow> 'img \<Rightarrow> error option \<times> 'img TLDetector" where
  "image_cb e self msg =
     (let self0 = self\<lparr>has_image := Some True, camera_image := Some msg\<rparr> in
      case process_traffic_lights e self0 of
        (Inl err, self1) \<Rightarrow> (Some err, self1)
      | (Inr r, self1) \<Rightarrow> (None, debounce e self1 r))"

text \<open>A sequence of frames through the debounce, and through the callback.\<close>

fun debounce_frames ::
  "'img env \<Rightarrow> 'img TLDetector \<Rightarrow> (int \<times> pyval) list \<Rightarrow> 'img TLDetector" where
  "debounce_frames e self [] = self"
| "debounce_frames e self (r # rs) = debounce_frames e (debounce e self r) rs"

fun image_cbs :: "'img env \<Rightarrow> 'img TLDetector \<Rightarrow> 'img list \<Rightarrow> 'img TLDetector" where
  "image_cbs e self [] = self"
| "image_cbs e self (msg # msgs) = image_cbs e (snd (image_cb e self msg)) msgs"

subsection \<open>Concrete detectors\<close>

text \<open>
  A path of the single waypoint \<open>(0, 0, 0)\<close>, one stop line at \<open>(0, 0)\<close>, and the car
  at \<open>(5, 0, 0)\<close>: the car and the stop line both resolve to waypoint 0.
\<close>

definition horizon_detector :: "unit TLDetector" where
  "horizon_detector =
     pose_cb (waypoints_cb (init (styx_env (\<lambda>u. 0)) [(0, 0)]) [(0, 0, 0)]) (5, 0, 0)"

text \<open>
  A path of the two waypoints \<open>(0, 0, 0)\<close> and \<open>(1, 0, 0)\<close>, one stop line at
  \<open>(1, 0)\<close>, the car at \<open>(0, 0, 0)\<close>, and a classifier that answers 0 (RED) on
  every image: the car resolves to waypoint 0 and the stop line to waypoint 1.
\<close>

definition two_point_detector :: "unit TLDetector" where
  "two_point_detector =
     pose_cb (waypoints_cb (init (styx_env (\<lambda>u. 0)) [(1, 0)]) [(0, 0, 0), (1, 0, 0)]) (0, 0, 0)"

text \<open>
  A straight path of 200 waypoints \<open>(i, 0, 0)\<close> with the car at \<open>(0, 0, 0)\<close>, for a
  given list of stop lines, and a classifier that answers 0 (RED) on every image.
\<close>

definition straight_path :: "nat \<Rightarrow> point3 list" where
  "straight_path n = map (\<lambda>i. (real i, 0, 0)) [0..<n]"

definition straight_detector :: "(real \<times> real) list \<Rightarrow> unit TLDetector" where
  "straight_detector cfg =
     pose_cb (waypoints_cb (init (styx_env (\<lambda>u. 0)) cfg) (straight_path 200)) (0, 0, 0)"

section \<open>Properties\<close>

subsection \<open>Binary64 rounding\<close>

lemma round_even_near: "\<bar>x - of_int z\<bar> < 1 / 2 \<Longrightarrow> round_even x = z"
proof (cases "of_int z \<le> x")
  case True
  assume a: "\<bar>x - of_int z\<bar> < 1 / 2"
  with True have "\<lfloor>x\<rfloor> = z" by (intro floor_unique) auto
  with a True show ?thesis by (simp add: round_even_def Let_def)
next
  case False
  assume a: "\<bar>x - of_int z\<bar> < 1 / 2"
  with False have f: "\<lfloor>x\<rfloor> = z - 1" by (intro floor_unique) auto
  have "1 / 2 < x - of_int (z - 1)" using a False by auto
  with f show ?thesis by (simp add: round_even_def Let_def)
qed

lemma fl64_round:
  assumes "2 powi e \<le> \<bar>x\<bar>" and "\<bar>x\<bar> < 2 powi (e + 1)"
    and "\<bar>x / 2 powi (e - 52) - of_int z\<bar> < 1 / 2"
  shows "fl64 x = of_int z * 2 powi (e - 52)"
proof -
  have pos: "0 < \<bar>x\<bar>"
    using assms(1) by (smt (verit) zero_less_power_int)
  have p: "\<And>k. (2::real) powr real_of_int k = 2 powi k"
    by (rule powr_real_of_int') simp_all
  have "(\<lfloor>log 2 \<bar>x\<bar>\<rfloor> = e) = (2 powr real_of_int e \<le> \<bar>x\<bar> \<and> \<bar>x\<bar> < 2 powr real_of_int (e + 1))"
    using pos by (rule floor_log_eq_powr_iff) simp
  then have "\<lfloor>log 2 \<bar>x\<bar>\<rfloor> = e"
    using assms(1,2) by (simp only: p)
  moreover have "round_even (x / 2 powi (e - 52)) = z"
    using assms(3) by (rule round_even_near)
  ultimately show ?thesis using pos by (simp add: fl64_def Let_def)
qed

lemma fl64_0 [simp]: "fl64 0 = 0"
  by (simp add: fl64_def)

lemma fl64_1 [simp]: "fl64 1 = 1"
  using fl64_round[of 0 1 "2 ^ 52"] by simp

lemma fl64_m1 [simp]: "fl64 (- 1) = - 1"
  using fl64_round[of 0 "- 1" "- (2 ^ 52)"] by simp

lemma fl64_3: "fl64 3 = 3" "fl64 (- 3) = - 3"
  using fl64_round[of 1 3 "3 * 2 ^ 51"] fl64_round[of 1 "- 3" "- (3 * 2 ^ 51)"] by simp_all

lemma fl64_4: "fl64 4 = 4" "fl64 (- 4) = - 4"
  using fl64_round[of 2 4 "2 ^ 52"] fl64_round[of 2 "- 4" "- (2 ^ 52)"] by simp_all

lemma fl64_5: "fl64 5 = 5"
  using fl64_round[of 2 5 "5 * 2 ^ 50"] by simp

lemma fl64_9: "fl64 9 = 9"
  using fl64_round[of 3 9 "9 * 2 ^ 49"] by simp

lemma fl64_16: "fl64 16 = 16"
  using fl64_round[of 4 16 "2 ^ 52"] by simp

lemma fl64_25: "fl64 25 = 25"
  using fl64_round[of 4 25 "25 * 2 ^ 48"] by simp

text \<open>Integers below \<open>2 ^ 53\<close> are binary64 numbers.\<close>

lemma round_even_of_int: "round_even (of_int z) = z"
  by (rule round_even_near) simp

lemma fl64_of_int:
  assumes "\<bar>m\<bar> < 2 ^ 53"
  shows "fl64 (of_int m) = of_int m"
proof (cases "m = 0")
  case True
  then show ?thesis by (simp add: fl64_def)
next
  case False
  let ?x = "of_int m :: real"
  let ?e = "\<lfloor>log 2 \<bar>?x\<bar>\<rfloor>"
  have pos: "0 < \<bar>?x\<bar>" using False by simp
  have "\<bar>?x\<bar> < 2 ^ 53"
    using assms by (metis of_int_abs of_int_less_numeral_power_cancel_iff)
  then have "\<bar>?x\<bar> < 2 powr 53" by (simp add: powr_numeral del: of_int_abs)
  then have "log 2 \<bar>?x\<bar> < 53" using pos by (simp add: log_less_iff del: of_int_abs)
  then have e: "?e \<le> 52" by (simp add: floor_le_iff del: of_int_abs)
  define n where "n = nat (52 - ?e)"
  have u: "(2::real) powi (?e - 52) = inverse (2 ^ n)"
  proof -
    have "?e - 52 = - int n" using e by (simp add: n_def)
    then show ?thesis by (simp add: power_int_minus del: of_int_abs)
  qed
  have "?x / inverse (2 ^ n) = of_int (m * 2 ^ n)" by (simp add: field_simps)
  then have "round_even (?x / inverse (2 ^ n)) = m * 2 ^ n"
    by (simp only: round_even_of_int)
  then have "fl64 ?x = of_int (m * 2 ^ n) * inverse (2 ^ n)"
    using False by (simp add: fl64_def Let_def u del: of_int_abs of_int_mult of_int_power)
  then show ?thesis by (simp add: field_simps)
qed

lemma euclidean_f64_axis:
  assumes "\<bar>a - b\<bar> < 2 ^ 26"
  shows "euclidean_f64 (of_int a, 0, 0) (of_int b, 0, 0) = of_int \<bar>a - b\<bar>"
proof -
  let ?d = "a - b"
  have small: "\<bar>?d\<bar> < 2 ^ 53"
    using assms by simp
  have sq: "\<bar>?d * ?d\<bar> < 2 ^ 53"
  proof -
    have "\<bar>?d * ?d\<bar> = \<bar>?d\<bar> * \<bar>?d\<bar>" by (simp add: abs_mult)
    also have "\<dots> \<le> 2 ^ 26 * 2 ^ 26"
      using assms by (intro mult_mono) simp_all
    also have "\<dots> < (2::int) ^ 53" by simp
    finally show ?thesis .
  qed
  have d: "fl64 (of_int a - of_int b) = of_int ?d"
    using fl64_of_int[OF small] by simp
  have dd: "fl64 (of_int ?d * of_int ?d) = of_int (?d * ?d)"
    using fl64_of_int[OF sq] by simp
  have s1: "sq_step 0 (of_int a) (of_int b) = of_int (?d * ?d)"
    using fl64_of_int[OF sq] by (simp add: sq_step_def Let_def d dd del: of_int_diff of_int_mult)
  have s2: "sq_step (of_int (?d * ?d)) 0 0 = of_int (?d * ?d)"
    using fl64_of_int[OF sq] by (simp add: sq_step_def Let_def del: of_int_diff of_int_mult)
  have rt: "sqrt (of_int (?d * ?d)) = of_int \<bar>?d\<bar>"
    by (simp add: real_sqrt_mult_self)
  have "fl64 (of_int \<bar>?d\<bar>) = of_int \<bar>?d\<bar>"
    using small by (intro fl64_of_int) simp
  then show ?thesis
    by (simp only: euclidean_f64.simps s1 s2 rt)
qed

lemma euclidean_f64_unit:
  "euclidean_f64 (1, 0, 0) (0, 0, 0) = 1"
  "euclidean_f64 (1, 0, 0) (1, 0, 0) = 0"
  "euclidean_f64 (0, 0, 0) (0, 0, 0) = 0"
  "euclidean_f64 (0, 0, 0) (1, 0, 0) = 1"
  by (simp_all add: sq_step_def Let_def)

text \<open>The two computed distances of the rounding tie used below.\<close>

lemma fl64_near_a: "fl64 (- (4 - 1 / 2 ^ 51)) = - (4 - 1 / 2 ^ 51)"
  using fl64_round[of 1 "- (4 - 1 / 2 ^ 51)" "- (2 ^ 53 - 1)"] by simp

lemma fl64_sq_a: "fl64 ((4 - 1 / 2 ^ 51) * (4 - 1 / 2 ^ 51)) = 16 - 1 / 2 ^ 48"
  using fl64_round[of 3 "(4 - 1 / 2 ^ 51) * (4 - 1 / 2 ^ 51)" "2 ^ 53 - 2"] by simp

lemma fl64_sum_a: "fl64 (25 - 1 / 2 ^ 48) = 25 - 1 / 2 ^ 48"
  using fl64_round[of 4 "25 - 1 / 2 ^ 48" "25 * 2 ^ 48 - 1"] by simp

lemma sqrt_a_bounds: "5 - 1 / 2 ^ 51 < sqrt (25 - 1 / 2 ^ 48)" "sqrt (25 - 1 / 2 ^ 48) < 5"
proof -
  have "(5 - 1 / 2 ^ 51)\<^sup>2 < (25 - 1 / 2 ^ 48 :: real)" by (simp add: power2_eq_square)
  then show "5 - 1 / 2 ^ 51 < sqrt (25 - 1 / 2 ^ 48)" by (rule real_less_rsqrt)
  have "(25 - 1 / 2 ^ 48 :: real) < 5\<^sup>2" by simp
  then show "sqrt (25 - 1 / 2 ^ 48) < 5" by (intro real_less_lsqrt) simp_all
qed

lemma fl64_sqrt_a: "fl64 (sqrt (25 - 1 / 2 ^ 48)) = 5"
proof -
  let ?x = "sqrt (25 - 1 / 2 ^ 48)"
  have b: "5 - 1 / 2 ^ 51 < ?x" "?x < 5" by (rule sqrt_a_bounds)+
  have "fl64 ?x = of_int (5 * 2 ^ 50) * 2 powi (2 - 52)"
  proof (rule fl64_round)
    show "2 powi 2 \<le> \<bar>?x\<bar>" using b by simp
    show "\<bar>?x\<bar> < 2 powi (2 + 1)" using b by simp
    show "\<bar>?x / 2 powi (2 - 52) - of_int (5 * 2 ^ 50)\<bar> < 1 / 2" using b by simp
  qed
  then show ?thesis by simp
qed

lemma euclidean_f64_tie:
  "euclidean_f64 (0, 0, 0) (3, 4, 0) = 5"
  "euclidean_f64 (0, 0, 0) (3, 4 - 1 / 2 ^ 51, 0) = 5"
proof -
  show "euclidean_f64 (0, 0, 0) (3, 4, 0) = 5"
    by (simp add: sq_step_def Let_def fl64_3 fl64_4 fl64_5 fl64_9 fl64_16 fl64_25)
  define a :: real where "a = 4 - 1 / 2 ^ 51"
  define c :: real where "c = 16 - 1 / 2 ^ 48"
  define b :: real where "b = 25 - 1 / 2 ^ 48"
  have fa: "fl64 (- a) = - a" unfolding a_def by (rule fl64_near_a)
  have fsq: "fl64 (a * a) = c" unfolding a_def c_def by (rule fl64_sq_a)
  have bc: "9 + c = b" by (simp add: b_def c_def)
  have fb: "fl64 b = b" unfolding b_def by (rule fl64_sum_a)
  have fsqrt: "fl64 (sqrt b) = 5" unfolding b_def by (rule fl64_sqrt_a)
  have s1: "sq_step 0 0 3 = 9" by (simp add: sq_step_def Let_def fl64_3 fl64_9)
  have s2: "sq_step 9 0 a = b" by (simp add: sq_step_def Let_def fa fsq bc fb)
  have s3: "sq_step b 0 0 = b" by (simp add: sq_step_def Let_def fb)
  have "euclidean_f64 (0, 0, 0) (3, a, 0) = 5"
    by (simp only: euclidean_f64.simps s1 s2 s3 fsqrt)
  then show "euclidean_f64 (0, 0, 0) (3, 4 - 1 / 2 ^ 51, 0) = 5" by (simp only: a_def)
qed

subsection \<open>The scans\<close>

lemma argmin_scan_inv:
  "length ys = i \<Longrightarrow> mi < i \<Longrightarrow> ys ! mi = mp \<Longrightarrow> (\<forall>j<i. mp \<le> ys ! j) \<Longrightarrow> (\<forall>j<mi. mp < ys ! j) \<Longrightarrow>
   (let r = argmin_scan mp mi i xs in
      r < length (ys @ xs) \<and> (\<forall>j<length (ys @ xs). (ys @ xs) ! r \<le> (ys @ xs) ! j)
      \<and> (\<forall>j<r. (ys @ xs) ! r < (ys @ xs) ! j))"
proof (induction xs arbitrary: ys i mi mp)
  case Nil
  then show ?case by (simp add: Let_def)
next
  case (Cons x xs)
  show ?case
  proof (cases "x < mp")
    case True
    have "let r = argmin_scan x i (Suc i) xs in
      r < length ((ys @ [x]) @ xs) \<and> (\<forall>j<length ((ys @ [x]) @ xs). ((ys @ [x]) @ xs) ! r \<le> ((ys @ [x]) @ xs) ! j)
      \<and> (\<forall>j<r. ((ys @ [x]) @ xs) ! r < ((ys @ [x]) @ xs) ! j)"
    proof (rule Cons.IH)
      show "length (ys @ [x]) = Suc i" using Cons.prems by simp
      show "i < Suc i" by simp
      show "(ys @ [x]) ! i = x" using Cons.prems(1) by (auto simp: nth_append)
      show "\<forall>j<Suc i. x \<le> (ys @ [x]) ! j"
        using Cons.prems True by (auto simp: nth_append less_Suc_eq)
      show "\<forall>j<i. x < (ys @ [x]) ! j"
        using Cons.prems True by (auto simp: nth_append)
    qed
    with True show ?thesis by simp
  next
    case False
    have "let r = argmin_scan mp mi (Suc i) xs in
      r < length ((ys @ [x]) @ xs) \<and> (\<forall>j<length ((ys @ [x]) @ xs). ((ys @ [x]) @ xs) ! r \<le> ((ys @ [x]) @ xs) ! j)
      \<and> (\<forall>j<r. ((ys @ [x]) @ xs) ! r < ((ys @ [x]) @ xs) ! j)"
    proof (rule Cons.IH)
      show "length (ys @ [x]) = Suc i" using Cons.prems by simp
      show "mi < Suc i" using Cons.prems by simp
      show "(ys @ [x]) ! mi = mp" using Cons.prems by (simp add: nth_append)
      show "\<forall>j<Suc i. mp \<le> (ys @ [x]) ! j"
        using Cons.prems False by (auto simp: nth_append less_Suc_eq)
      show "\<forall>j<mi. mp < (ys @ [x]) ! j"
        using Cons.prems by (auto simp: nth_append)
    qed
    with False show ?thesis by simp
  qed
qed

lemma argmin_first_min:
  assumes "xs \<noteq> []"
  shows "argmin xs < length xs"
    and "\<forall>j<length xs. xs ! argmin xs \<le> xs ! j"
    and "\<forall>j<argmin xs. xs ! argmin xs < xs ! j"
proof -
  obtain x rest where xs: "xs = x # rest" using assms by (cases xs) auto
  have "let r = argmin_scan x 0 1 rest in
      r < length ([x] @ rest) \<and> (\<forall>j<length ([x] @ rest). ([x] @ rest) ! r \<le> ([x] @ rest) ! j)
      \<and> (\<forall>j<r. ([x] @ rest) ! r < ([x] @ rest) ! j)"
    by (rule argmin_scan_inv) auto
  then show "argmin xs < length xs"
    and "\<forall>j<length xs. xs ! argmin xs \<le> xs ! j"
    and "\<forall>j<argmin xs. xs ! argmin xs < xs ! j"
    by (simp_all add: xs Let_def)
qed

lemma stop_line_loop_none:
  "\<forall>x\<in>set xs. \<not> (0 < x - car \<and> x - car < m) \<Longrightarrow>
   stop_line_loop car m (enumerate n xs) (None, w) = (None, w)"
  by (induction xs arbitrary: n) auto

lemma stop_line_loop_first:
  "k < length xs \<Longrightarrow> 0 < xs ! k - car \<and> xs ! k - car < m \<Longrightarrow>
   (\<forall>j<k. \<not> (0 < xs ! j - car \<and> xs ! j - car < m)) \<Longrightarrow>
   stop_line_loop car m (enumerate n xs) (l, w) = (Some (n + k), xs ! k)"
proof (induction xs arbitrary: n k l)
  case Nil
  then show ?case by simp
next
  case (Cons x xs)
  show ?case
  proof (cases k)
    case 0
    with Cons.prems show ?thesis by simp
  next
    case (Suc k')
    have nq: "\<not> (0 < x - car \<and> x - car < m)" using Cons.prems(3) Suc by auto
    have "stop_line_loop car m (enumerate (Suc n) xs) (None, w) = (Some (Suc n + k'), xs ! k')"
    proof (rule Cons.IH)
      show "k' < length xs" using Cons.prems Suc by simp
      show "0 < xs ! k' - car \<and> xs ! k' - car < m" using Cons.prems Suc by simp
      show "\<forall>j<k'. \<not> (0 < xs ! j - car \<and> xs ! j - car < m)"
        using Cons.prems(3) Suc by auto
    qed
    with nq Suc show ?thesis by (simp add: Let_def)
  qed
qed

lemma stop_line_loop_some:
  "stop_line_loop car m (enumerate n xs) (None, w) = (Some i, wp) \<Longrightarrow>
   \<exists>k<length xs. i = n + k \<and> wp = xs ! k \<and> 0 < wp - car \<and> wp - car < m
      \<and> (\<forall>j<k. \<not> (0 < xs ! j - car \<and> xs ! j - car < m))"
proof (induction xs arbitrary: n)
  case Nil
  then show ?case by simp
next
  case (Cons x xs)
  show ?case
  proof (cases "0 < x - car \<and> x - car < m")
    case True
    with Cons.prems have "i = n" "wp = x" by (simp_all add: Let_def)
    with True show ?thesis by (intro exI[of _ 0]) simp
  next
    case False
    with Cons.prems have "stop_line_loop car m (enumerate (Suc n) xs) (None, w) = (Some i, wp)"
      by (auto simp: Let_def split: if_splits)
    from Cons.IH[OF this] obtain k where k: "k < length xs" "i = Suc n + k" "wp = xs ! k"
      "0 < wp - car" "wp - car < m" "\<forall>j<k. \<not> (0 < xs ! j - car \<and> xs ! j - car < m)"
      by blast
    show ?thesis
    proof (intro exI[of _ "Suc k"] conjI)
      show "\<forall>j<Suc k. \<not> (0 < (x # xs) ! j - car \<and> (x # xs) ! j - car < m)"
        using k(6) False by (auto simp: less_Suc_eq_0_disj)
    qed (use k in simp_all)
  qed
qed

lemma get_closest_waypoint_first_min:
  assumes "waypoints self = Some wps" and "wps \<noteq> []"
  shows "\<exists>i<length wps. get_closest_waypoint e self q = Inr (int i)
           \<and> (\<forall>j<length wps. cdist_euclidean e q (wps ! i) \<le> cdist_euclidean e q (wps ! j))
           \<and> (\<forall>j<i. cdist_euclidean e q (wps ! i) < cdist_euclidean e q (wps ! j))"
proof -
  let ?ds = "cdist e q wps"
  have ne: "?ds \<noteq> []" and len: "length ?ds = length wps"
    using assms(2) by (simp_all add: cdist_def)
  have nth: "\<And>j. j < length wps \<Longrightarrow> ?ds ! j = cdist_euclidean e q (wps ! j)"
    by (simp add: cdist_def)
  let ?i = "argmin ?ds"
  have i: "?i < length wps" using argmin_first_min(1)[OF ne] len by simp
  have res: "get_closest_waypoint e self q = Inr (int ?i)"
    using assms by (simp add: get_closest_waypoint_def)
  have low: "\<forall>j<length wps. cdist_euclidean e q (wps ! ?i) \<le> cdist_euclidean e q (wps ! j)"
    using argmin_first_min(2)[OF ne] i nth len by auto
  have first: "\<forall>j<?i. cdist_euclidean e q (wps ! ?i) < cdist_euclidean e q (wps ! j)"
    using argmin_first_min(3)[OF ne] i nth by auto
  from i res low first show ?thesis by blast
qed

lemma straight_path_nearest:
  assumes "waypoints self = Some (straight_path n)" and "k < n" and "n \<le> 1000"
  shows "get_closest_waypoint (styx_env clf) self (real k, 0, 0) = Inr (int k)"
proof -
  let ?e = "styx_env clf"
  let ?wps = "straight_path n"
  let ?q = "(real k, 0::real, 0::real)"
  have ne: "?wps \<noteq> []" and len: "length ?wps = n"
    using assms(2) by (auto simp: straight_path_def)
  have ce: "cdist_euclidean ?e = euclidean_f64" by (simp add: styx_env_def)
  have dist: "\<And>j. j < n \<Longrightarrow> euclidean_f64 ?q (?wps ! j) = of_int \<bar>int k - int j\<bar>"
  proof -
    fix j assume j: "j < n"
    have "\<bar>int k - int j\<bar> < 2 ^ 26" using j assms(2,3) by simp
    from euclidean_f64_axis[OF this] j show "euclidean_f64 ?q (?wps ! j) = of_int \<bar>int k - int j\<bar>"
      by (simp add: straight_path_def)
  qed
  from get_closest_waypoint_first_min[OF assms(1) ne, of ?e ?q]
  obtain i where i: "i < n" "get_closest_waypoint ?e self ?q = Inr (int i)"
    and low: "\<forall>j<n. euclidean_f64 ?q (?wps ! i) \<le> euclidean_f64 ?q (?wps ! j)"
    unfolding ce len by blast
  from low assms(2) have "euclidean_f64 ?q (?wps ! i) \<le> euclidean_f64 ?q (?wps ! k)" by blast
  then have "(of_int \<bar>int k - int i\<bar> :: real) \<le> of_int \<bar>int k - int k\<bar>"
    using dist[OF i(1)] dist[OF assms(2)] by simp
  then have "i = k" by simp
  with i(2) show ?thesis by simp
qed

subsection \<open>Candidate selection and the processing step\<close>

lemma select_light_none:
  "\<forall>wp\<in>set sls. \<not> (car < wp \<and> wp < car + 150) \<Longrightarrow> select_light car sls = (None, -1)"
  unfolding select_light_def by (rule stop_line_loop_none) auto

lemma select_light_first:
  assumes "k < length sls" and "car < sls ! k \<and> sls ! k < car + 150"
    and "\<forall>j<k. \<not> (car < sls ! j \<and> sls ! j < car + 150)"
  shows "select_light car sls = (Some k, sls ! k)"
proof -
  have "stop_line_loop car 150 (enumerate 0 sls) (None, -1) = (Some (0 + k), sls ! k)"
    using assms by (intro stop_line_loop_first) auto
  then show ?thesis by (simp add: select_light_def)
qed

lemma select_light_some:
  assumes "select_light car sls = (Some i, wp)"
  shows "i < length sls \<and> wp = sls ! i \<and> car < wp \<and> wp < car + 150
           \<and> (\<forall>j<i. \<not> (car < sls ! j \<and> sls ! j < car + 150))"
proof -
  from assms have "stop_line_loop car 150 (enumerate 0 sls) (None, -1) = (Some i, wp)"
    by (simp add: select_light_def)
  from stop_line_loop_some[OF this] show ?thesis by auto
qed

lemma first_qualifying_index:
  assumes "\<exists>wp\<in>set sls. car < wp \<and> wp < (car::int) + 150"
  shows "\<exists>k<length sls. (car < sls ! k \<and> sls ! k < car + 150)
           \<and> (\<forall>j<k. \<not> (car < sls ! j \<and> sls ! j < car + 150))"
proof -
  let ?Q = "\<lambda>k. k < length sls \<and> car < sls ! k \<and> sls ! k < car + 150"
  from assms obtain n where n: "?Q n" by (auto simp: in_set_conv_nth)
  let ?k = "LEAST k. ?Q k"
  have "?Q ?k" using n by (rule LeastI)
  moreover have "\<forall>j<?k. \<not> (car < sls ! j \<and> sls ! j < car + 150)"
  proof (intro allI impI)
    fix j assume j: "j < ?k"
    then have "\<not> ?Q j" by (rule not_less_Least)
    moreover have "j < length sls" using j \<open>?Q ?k\<close> by simp
    ultimately show "\<not> (car < sls ! j \<and> sls ! j < car + 150)" by simp
  qed
  ultimately show ?thesis by blast
qed

lemma get_closest_waypoint_cong:
  "waypoints a = waypoints b \<Longrightarrow> get_closest_waypoint e a p = get_closest_waypoint e b p"
  by (simp add: get_closest_waypoint_def)

lemma closest_waypoints_cong:
  assumes "waypoints a = waypoints b"
  shows "closest_waypoints e a ps = closest_waypoints e b ps"
proof (induction ps)
  case Nil
  show ?case by simp
next
  case (Cons p ps)
  have "get_closest_stoplight_waypoint e a p = get_closest_stoplight_waypoint e b p"
    using assms by (simp add: get_closest_stoplight_waypoint_def get_closest_waypoint_def)
  with Cons show ?case by (simp split: sum.splits)
qed

lemma process_traffic_lights_no_candidate:
  assumes "closest_waypoints e self (config self) = Inr cws"
    and "pose self = Some p" and "get_closest_waypoint e self p = Inr car"
    and "select_light car (stop_lines self @ cws) = (None, w)"
  shows "process_traffic_lights e self =
           (Inr (-1, PyInt (UNKNOWN e)), self\<lparr>stop_lines := stop_lines self @ cws\<rparr>)"
proof -
  have "get_closest_waypoint e (self\<lparr>stop_lines := stop_lines self @ cws\<rparr>) p = Inr car"
    using assms(3) by (simp add: get_closest_waypoint_def)
  with assms show ?thesis by (simp add: process_traffic_lights_def)
qed

lemma select_light_append:
  assumes "set ys \<subseteq> set xs"
  shows "select_light car (xs @ ys) = select_light car xs"
proof (cases "\<exists>wp\<in>set xs. car < wp \<and> wp < car + 150")
  case True
  from first_qualifying_index[OF True] obtain k where k: "k < length xs"
    "car < xs ! k \<and> xs ! k < car + 150"
    "\<forall>j<k. \<not> (car < xs ! j \<and> xs ! j < car + 150)" by blast
  have "select_light car xs = (Some k, xs ! k)"
    using k by (rule select_light_first)
  moreover have "select_light car (xs @ ys) = (Some k, (xs @ ys) ! k)"
  proof (rule select_light_first)
    show "k < length (xs @ ys)" using k(1) by simp
    show "car < (xs @ ys) ! k \<and> (xs @ ys) ! k < car + 150"
      using k(1,2) by (simp add: nth_append)
    show "\<forall>j<k. \<not> (car < (xs @ ys) ! j \<and> (xs @ ys) ! j < car + 150)"
      using k(1,3) by (simp add: nth_append)
  qed
  ultimately show ?thesis using k(1) by (simp add: nth_append)
next
  case False
  then have "\<forall>wp\<in>set (xs @ ys). \<not> (car < wp \<and> wp < car + 150)"
    using assms by auto
  then have "select_light car (xs @ ys) = (None, -1)" by (rule select_light_none)
  moreover have "select_light car xs = (None, -1)"
    using False by (intro select_light_none) blast
  ultimately show ?thesis by simp
qed

lemma concat_replicate_snoc: "concat (replicate k xs) @ xs = xs @ concat (replicate k xs)"
  by (induction k) simp_all

lemma set_concat_replicate: "set (concat (replicate k xs)) \<subseteq> set xs"
  by (induction k) simp_all

lemma select_light_accumulated:
  "select_light car (concat (replicate k cws) @ cws) = select_light car cws"
  by (simp only: concat_replicate_snoc select_light_append[OF set_concat_replicate])

text \<open>The value returned by the processing step, from the selection.\<close>

lemma get_light_state_stop_lines:
  "fst (get_light_state e (self\<lparr>stop_lines := sls\<rparr>) l) = fst (get_light_state e self l')"
  by (simp add: get_light_state_def split: option.splits)

lemma process_traffic_lights_value:
  assumes "closest_waypoints e self (config self) = Inr cws"
  shows "fst (process_traffic_lights e self) =
     (case (case pose self of
              None \<Rightarrow> Inr (None, -1)
            | Some p \<Rightarrow>
                (case get_closest_waypoint e self p of
                   Inl err \<Rightarrow> Inl err
                 | Inr car \<Rightarrow> Inr (select_light car (stop_lines self @ cws)))) of
        Inl err \<Rightarrow> Inl err
      | Inr (light, light_wp) \<Rightarrow>
          (case light of
             Some l \<Rightarrow>
               (case fst (get_light_state e self l) of
                  Inl err \<Rightarrow> Inl err
                | Inr s \<Rightarrow> Inr (light_wp, s))
           | None \<Rightarrow> Inr (-1, PyInt (UNKNOWN e))))"
proof -
  let ?self1 = "self\<lparr>stop_lines := stop_lines self @ cws\<rparr>"
  have g: "\<And>p. get_closest_waypoint e ?self1 p = get_closest_waypoint e self p"
    by (simp add: get_closest_waypoint_def)
  have l: "\<And>l. fst (get_light_state e ?self1 l) = fst (get_light_state e self l)"
    by (rule get_light_state_stop_lines)
  show ?thesis
    using assms
    by (simp add: process_traffic_lights_def g l[symmetric]
        split: option.splits sum.splits prod.splits)
qed

subsection \<open>Resolution of the stop lines, and what a frame leaves unchanged\<close>

text \<open>Unfolding sets for runs on concrete detectors.\<close>

lemmas detector_defs = two_point_detector_def pose_cb_def waypoints_cb_def init_def styx_env_def

lemmas step_defs = image_cb_def process_traffic_lights_def get_closest_stoplight_waypoint_def
  get_closest_waypoint_def cdist_def select_light_def get_light_state_def debounce_def
  committed_wp_def py_eq_def STATE_COUNT_THRESHOLD_def sq_step_def Let_def

lemma closest_waypoints_entries:
  "closest_waypoints e self ps = Inr cws \<Longrightarrow>
   length cws = length ps
   \<and> (\<forall>i<length cws. get_closest_stoplight_waypoint e self (ps ! i) = Inr (cws ! i))"
proof (induction ps arbitrary: cws)
  case Nil
  then show ?case by simp
next
  case (Cons p ps)
  from Cons.prems obtain w ws where w: "get_closest_stoplight_waypoint e self p = Inr w"
    and ws: "closest_waypoints e self ps = Inr ws" and cws: "cws = w # ws"
    by (auto split: sum.splits)
  from Cons.IH[OF ws] have ih: "length ws = length ps"
    "\<forall>i<length ws. get_closest_stoplight_waypoint e self (ps ! i) = Inr (ws ! i)" by simp_all
  show ?case
  proof (intro conjI allI impI)
    show "length cws = length (p # ps)" using ih(1) cws by simp
    fix i assume "i < length cws"
    then show "get_closest_stoplight_waypoint e self ((p # ps) ! i) = Inr (cws ! i)"
      using ih w cws by (cases i) simp_all
  qed
qed

lemma closest_waypoints_total:
  assumes "waypoints self = Some wps" and "wps \<noteq> []"
  shows "\<exists>cws. closest_waypoints e self ps = Inr cws"
proof (induction ps)
  case Nil
  show ?case by simp
next
  case (Cons p ps)
  then obtain ws where "closest_waypoints e self ps = Inr ws" by blast
  then show ?case
    using assms by (simp add: get_closest_stoplight_waypoint_def get_closest_waypoint_def)
qed

lemma process_traffic_lights_frame:
  "waypoints (snd (process_traffic_lights e self)) = waypoints self
   \<and> config (snd (process_traffic_lights e self)) = config self"
  by (simp add: process_traffic_lights_def get_light_state_def Let_def
      split: sum.splits option.splits prod.splits)

lemma debounce_frame:
  "waypoints (debounce e self r) = waypoints self \<and> config (debounce e self r) = config self"
  by (simp add: debounce_def Let_def)

lemma image_cb_frame:
  "waypoints (snd (image_cb e self msg)) = waypoints self
   \<and> config (snd (image_cb e self msg)) = config self"
proof -
  let ?self0 = "self\<lparr>has_image := Some True, camera_image := Some msg\<rparr>"
  obtain r self1 where p: "process_traffic_lights e ?self0 = (r, self1)" by force
  with process_traffic_lights_frame[of e ?self0]
  have "waypoints self1 = waypoints self" "config self1 = config self" by simp_all
  then show ?thesis
    using p by (cases r) (simp_all add: image_cb_def debounce_frame)
qed

subsection \<open>The processing step on a frame\<close>

lemma process_traffic_lights_candidate:
  assumes "closest_waypoints e self (config self) = Inr cws"
    and "pose self = Some p" and "get_closest_waypoint e self p = Inr c"
    and "select_light c (stop_lines self @ cws) = (Some k, wp)"
  shows "fst (process_traffic_lights e (self\<lparr>has_image := Some True, camera_image := Some msg\<rparr>))
           = Inr (wp, PyInt (get_classification e msg))"
proof -
  let ?self0 = "self\<lparr>has_image := Some True, camera_image := Some msg\<rparr>"
  have cw: "closest_waypoints e ?self0 (config ?self0) = Inr cws"
    using assms(1) closest_waypoints_cong[of ?self0 self e "config self"] by simp
  have g: "get_closest_waypoint e ?self0 p = Inr c"
    using assms(3) by (simp add: get_closest_waypoint_def)
  have l: "fst (get_light_state e ?self0 k) = Inr (PyInt (get_classification e msg))"
    by (simp add: get_light_state_def)
  show ?thesis
    by (simp add: process_traffic_lights_value[OF cw] assms(2,4) g l)
qed

lemma process_traffic_lights_result:
  assumes "closest_waypoints e self (config self) = Inr cws"
    and "pose self = Some p" and "get_closest_waypoint e self p = Inr c"
    and "fst (process_traffic_lights e self) = Inr (wp, s)"
  shows "(wp = -1 \<and> s = PyInt (UNKNOWN e))
      \<or> (wp \<in> set (stop_lines self @ cws) \<and> c < wp \<and> wp < c + 150)"
proof -
  obtain l w where sel: "select_light c (stop_lines self @ cws) = (l, w)" by force
  show ?thesis
  proof (cases l)
    case None
    with assms sel show ?thesis
      by (simp add: process_traffic_lights_value[OF assms(1)])
  next
    case (Some k)
    with sel have "select_light c (stop_lines self @ cws) = (Some k, w)" by simp
    from select_light_some[OF this]
    have win: "k < length (stop_lines self @ cws)" "w = (stop_lines self @ cws) ! k"
      "c < w" "w < c + 150" by simp_all
    then have mem: "w \<in> set (stop_lines self @ cws)" by (metis nth_mem)
    have "wp = w"
      using assms(2,3,4) sel Some
      by (simp add: process_traffic_lights_value[OF assms(1)] split: sum.splits)
    with win mem show ?thesis by simp
  qed
qed





text \<open>The straight path: every waypoint is its own nearest waypoint.\<close>

lemma straight_detector_facts:
  "waypoints (straight_detector cfg) = Some (straight_path 200)"
  "pose (straight_detector cfg) = Some (0, 0, 0)"
  "config (straight_detector cfg) = cfg"
  "stop_lines (straight_detector cfg) = []"
  by (simp_all add: straight_detector_def pose_cb_def waypoints_cb_def init_def)

lemma straight_detector_nearest:
  "k < 200 \<Longrightarrow>
   get_closest_waypoint (styx_env clf) (straight_detector cfg) (real k, 0, 0) = Inr (int k)"
  by (rule straight_path_nearest[OF straight_detector_facts(1)]) simp_all

lemma straight_detector_resolve:
  "get_closest_waypoint (styx_env clf) (straight_detector cfg) (0, 0, 0) = Inr 0"
  "closest_waypoints (styx_env clf) (straight_detector cfg) [(149, 0)] = Inr [149]"
  "closest_waypoints (styx_env clf) (straight_detector cfg) [(100, 0), (149, 0)] = Inr [100, 149]"
  using straight_detector_nearest[of 0 clf cfg] straight_detector_nearest[of 149 clf cfg]
    straight_detector_nearest[of 100 clf cfg]
  by (simp_all add: get_closest_stoplight_waypoint_def)

subsection \<open>The branches of the debounce\<close>

lemma py_eq_refl: "py_eq s s"
  by (simp add: py_eq_def)

lemma debounce_change:
  "\<not> py_eq (state self) s \<Longrightarrow>
   debounce e self (w, s) = self\<lparr>state := s, state_count := 1\<rparr>"
  by (simp add: debounce_def Let_def)

lemma debounce_commit:
  "py_eq (state self) s \<Longrightarrow> 3 \<le> state_count self \<Longrightarrow>
   debounce e self (w, s) =
     self\<lparr>last_state := state self, last_wp := committed_wp e w s,
          state_count := state_count self + 1,
          published := published self @ [committed_wp e w s]\<rparr>"
  by (simp add: debounce_def Let_def STATE_COUNT_THRESHOLD_def)

lemma debounce_commit_run:
  "py_eq (state self) s \<Longrightarrow> 3 \<le> state_count self \<Longrightarrow>
   published (debounce_frames e self (map (\<lambda>w. (w, s)) ws))
     = published self @ map (\<lambda>w. committed_wp e w s) ws
   \<and> last_wp (debounce_frames e self (map (\<lambda>w. (w, s)) ws))
     = (if ws = [] then last_wp self else committed_wp e (last ws) s)"
proof (induction ws arbitrary: self)
  case Nil
  show ?case by simp
next
  case (Cons w ws)
  let ?self1 = "debounce e self (w, s)"
  have d: "?self1 = self\<lparr>last_state := state self, last_wp := committed_wp e w s,
          state_count := state_count self + 1,
          published := published self @ [committed_wp e w s]\<rparr>"
    using Cons.prems by (rule debounce_commit)
  have "py_eq (state ?self1) s" "3 \<le> state_count ?self1"
    using Cons.prems by (simp_all add: d)
  from Cons.IH[OF this] show ?case by (simp add: d)
qed

subsection \<open>The trace of published messages\<close>

lemma process_traffic_lights_published:
  "published (snd (process_traffic_lights e self)) = published self"
  by (simp add: process_traffic_lights_def get_light_state_def Let_def
      split: sum.splits option.splits prod.splits)

lemma debounce_published:
  "\<exists>vs. published (debounce e self r) = published self @ vs \<and> length vs \<le> 1"
  by (simp add: debounce_def Let_def)

subsection \<open>Nearest waypoint lookup\<close>

text \<open>
  Claim C6, as amended. For every query point and every path snapshot with at least one
  waypoint, \<open>get_closest_waypoint\<close> returns an index of the path whose point is at the
  least computed (float64) distance from the query point, and every lower index has a
  strictly larger computed distance: among the indices at the least computed distance
  the lowest is returned. In exact Euclidean distance the returned point is nearest up
  to the error of the computation: if every computed distance is within \<open>d\<close> of the
  exact one, no waypoint is nearer than the returned one by more than \<open>2 * d\<close>.
\<close>

theorem get_closest_waypoint_least_computed:
  assumes "waypoints self = Some wps" and "wps \<noteq> []"
  shows "\<exists>i<length wps. get_closest_waypoint e self q = Inr (int i)
           \<and> (\<forall>j<length wps. cdist_euclidean e q (wps ! i) \<le> cdist_euclidean e q (wps ! j))
           \<and> (\<forall>j<i. cdist_euclidean e q (wps ! i) < cdist_euclidean e q (wps ! j))
           \<and> (\<forall>d. (\<forall>p\<in>set wps. \<bar>cdist_euclidean e q p - euclidean q p\<bar> \<le> d) \<longrightarrow>
                 (\<forall>j<length wps. euclidean q (wps ! i) \<le> euclidean q (wps ! j) + 2 * d))"
proof -
  from get_closest_waypoint_first_min[OF assms, of e q]
  obtain i where i: "i < length wps" "get_closest_waypoint e self q = Inr (int i)"
    and low: "\<forall>j<length wps. cdist_euclidean e q (wps ! i) \<le> cdist_euclidean e q (wps ! j)"
    and first: "\<forall>j<i. cdist_euclidean e q (wps ! i) < cdist_euclidean e q (wps ! j)"
    by blast
  have "\<forall>d. (\<forall>p\<in>set wps. \<bar>cdist_euclidean e q p - euclidean q p\<bar> \<le> d) \<longrightarrow>
           (\<forall>j<length wps. euclidean q (wps ! i) \<le> euclidean q (wps ! j) + 2 * d)"
  proof (intro allI impI)
    fix d j
    assume acc: "\<forall>p\<in>set wps. \<bar>cdist_euclidean e q p - euclidean q p\<bar> \<le> d"
      and j: "j < length wps"
    have "\<bar>cdist_euclidean e q (wps ! i) - euclidean q (wps ! i)\<bar> \<le> d"
      using acc i(1) by simp
    moreover have "\<bar>cdist_euclidean e q (wps ! j) - euclidean q (wps ! j)\<bar> \<le> d"
      using acc j by simp
    moreover have "cdist_euclidean e q (wps ! i) \<le> cdist_euclidean e q (wps ! j)"
      using low j by simp
    ultimately show "euclidean q (wps ! i) \<le> euclidean q (wps ! j) + 2 * d" by linarith
  qed
  with i low first show ?thesis by blast
qed

theorem get_closest_waypoint_least_computed_witness:
  "waypoints (waypoints_cb (init (styx_env (\<lambda>u::unit. 0)) []) [(0, 0, 0), (1, 0, 0), (1, 0, 0)])
     = Some [(0, 0, 0), (1, 0, 0), (1, 0, 0)]
   \<and> [(0, 0, 0), (1, 0, 0), (1::real, 0::real, 0::real)] \<noteq> []
   \<and> get_closest_waypoint (styx_env (\<lambda>u::unit. 0))
       (waypoints_cb (init (styx_env (\<lambda>u::unit. 0)) []) [(0, 0, 0), (1, 0, 0), (1, 0, 0)])
       (1, 0, 0) = Inr 1
   \<and> \<bar>euclidean_f64 (1, 0, 0) (0, 0, 0) - euclidean (1, 0, 0) (0, 0, 0)\<bar> \<le> 0
   \<and> \<bar>euclidean_f64 (1, 0, 0) (1, 0, 0) - euclidean (1, 0, 0) (1, 0, 0)\<bar> \<le> 0
   \<and> euclidean (1, 0, 0) (1, 0, 0) \<le> euclidean (1, 0, 0) (0, 0, 0) + 2 * 0"
proof -
  let ?e = "styx_env (\<lambda>u::unit. 0)"
  let ?wps = "[(0, 0, 0), (1, 0, 0), (1::real, 0::real, 0::real)]"
  let ?self = "waypoints_cb (init ?e []) ?wps"
  let ?q = "(1::real, 0::real, 0::real)"
  have w: "waypoints ?self = Some ?wps" by (simp add: waypoints_cb_def)
  have ne: "?wps \<noteq> []" by simp
  have ce: "cdist_euclidean ?e = euclidean_f64" by (simp add: styx_env_def)
  from get_closest_waypoint_least_computed[OF w ne, of ?e ?q]
  obtain i where i: "i < length ?wps" "get_closest_waypoint ?e ?self ?q = Inr (int i)"
    and low: "\<forall>j<length ?wps. euclidean_f64 ?q (?wps ! i) \<le> euclidean_f64 ?q (?wps ! j)"
    and first: "\<forall>j<i. euclidean_f64 ?q (?wps ! i) < euclidean_f64 ?q (?wps ! j)"
    and acc: "\<forall>d. (\<forall>p\<in>set ?wps. \<bar>euclidean_f64 ?q p - euclidean ?q p\<bar> \<le> d) \<longrightarrow>
                 (\<forall>j<length ?wps. euclidean ?q (?wps ! i) \<le> euclidean ?q (?wps ! j) + 2 * d)"
    unfolding ce by blast
  from i(1) have cases: "i = 0 \<or> i = 1 \<or> i = 2" by auto
  have "1 < length ?wps" by simp
  with low have "euclidean_f64 ?q (?wps ! i) \<le> euclidean_f64 ?q (?wps ! 1)" by blast
  then have n0: "i \<noteq> 0"
    by (cases "i = 0") (simp_all add: euclidean_f64_unit del: euclidean_f64.simps)
  have n2: "i \<noteq> 2"
  proof
    assume "i = 2"
    with first have "\<forall>j<2. euclidean_f64 ?q (?wps ! 2) < euclidean_f64 ?q (?wps ! j)" by simp
    moreover have "(1::nat) < 2" by simp
    ultimately have "euclidean_f64 ?q (?wps ! 2) < euclidean_f64 ?q (?wps ! 1)" by blast
    then show False by simp
  qed
  from cases n0 n2 have i1: "i = 1" by blast
  have exact: "\<forall>p\<in>set ?wps. \<bar>euclidean_f64 ?q p - euclidean ?q p\<bar> \<le> 0"
    by (simp add: euclidean_f64_unit del: euclidean_f64.simps)
  with acc have "\<forall>j<length ?wps. euclidean ?q (?wps ! i) \<le> euclidean ?q (?wps ! j) + 2 * 0"
    by blast
  moreover have "0 < length ?wps" by simp
  ultimately have "euclidean ?q (?wps ! i) \<le> euclidean ?q (?wps ! 0) + 2 * 0" by blast
  with i1 i(2) w exact show ?thesis by (simp del: euclidean_f64.simps)
qed

text \<open>
  The claim as stated has the returned point at the least exact distance. On the path
  \<open>(3, 4, 0)\<close>, \<open>(3, 4 - 1 / 2 ^ 51, 0)\<close> and the query point \<open>(0, 0, 0)\<close> both computed
  distances are 5, so index 0 is returned, while the point at index 1 is strictly
  nearer.
\<close>

theorem nearest_waypoint_rounding_tie:
  "get_closest_waypoint (styx_env (\<lambda>u::unit. 0))
       (waypoints_cb (init (styx_env (\<lambda>u::unit. 0)) []) [(3, 4, 0), (3, 4 - 1 / 2 ^ 51, 0)])
       (0, 0, 0) = Inr 0
   \<and> euclidean (0, 0, 0) (3, 4 - 1 / 2 ^ 51, 0) < euclidean (0, 0, 0) (3, 4, 0)"
proof
  define wps :: "point3 list" where "wps = [(3, 4, 0), (3, 4 - 1 / 2 ^ 51, 0)]"
  let ?e = "styx_env (\<lambda>u::unit. 0)"
  have ce: "cdist_euclidean ?e = euclidean_f64" by (simp add: styx_env_def)
  have cd: "cdist ?e (0, 0, 0) wps = [5, 5]"
    by (simp only: wps_def cdist_def ce list.map euclidean_f64_tie)
  have ne: "wps \<noteq> []" by (simp add: wps_def)
  have "get_closest_waypoint ?e (waypoints_cb (init ?e []) wps) (0, 0, 0) = Inr 0"
    by (simp add: get_closest_waypoint_def waypoints_cb_def ne cd)
  then show "get_closest_waypoint (styx_env (\<lambda>u::unit. 0))
       (waypoints_cb (init (styx_env (\<lambda>u::unit. 0)) []) [(3, 4, 0), (3, 4 - 1 / 2 ^ 51, 0)])
       (0, 0, 0) = Inr 0"
    by (simp only: wps_def)
  have "sqrt ((0 - 3)\<^sup>2 + (0 - (4 - 1 / 2 ^ 51))\<^sup>2 + (0 - 0)\<^sup>2)
      < sqrt ((0 - 3)\<^sup>2 + (0 - 4)\<^sup>2 + (0 - 0 :: real)\<^sup>2)"
    by (subst real_sqrt_less_iff) (simp add: power2_eq_square)
  then show "euclidean (0, 0, 0) (3, 4 - 1 / 2 ^ 51, 0) < euclidean (0, 0, 0) (3, 4, 0)"
    by (simp only: euclidean.simps)
qed

subsection \<open>The look-ahead horizon\<close>

text \<open>
  Claim C7, as amended. For every car waypoint index \<open>car\<close>: a stop-line waypoint at
  \<open>car + 149\<close> is selected provided no stop line before it in the scan lies strictly
  ahead of the car within the horizon; whatever is selected lies strictly ahead of the
  car and strictly below \<open>car + 150\<close>, so a stop line at \<open>car + 150\<close> or beyond, at
  the car's own index or behind the car is never selected; and when no stop-line
  waypoint lies in the window, no candidate is selected. The same holds of
  \<open>process_traffic_lights\<close>, for the car index \<open>c\<close> it computes and the list it scans:
  with no entry in the window it returns \<open>(-1, UNKNOWN)\<close>; called on a frame, with the
  first entry in the window at \<open>c + 149\<close>, it returns that waypoint with the
  classifier's answer; and a waypoint it returns is the sentinel with UNKNOWN or an
  entry of the list inside the window.
\<close>

theorem horizon_boundary:
  "(k < length sls \<and> sls ! k = car + 149
      \<and> (\<forall>j<k. \<not> (car < sls ! j \<and> sls ! j < car + 150))
     \<longrightarrow> select_light car sls = (Some k, car + 149))
   \<and> (select_light car sls = (Some i, wp) \<longrightarrow> wp \<in> set sls \<and> car < wp \<and> wp < car + 150)
   \<and> ((\<forall>x\<in>set sls. \<not> (car < x \<and> x < car + 150)) \<longrightarrow> select_light car sls = (None, -1))
   \<and> (closest_waypoints e self (config self) = Inr cws \<and> pose self = Some p
        \<and> get_closest_waypoint e self p = Inr c
     \<longrightarrow>
        ((\<forall>x\<in>set (stop_lines self @ cws). \<not> (c < x \<and> x < c + 150))
           \<longrightarrow> fst (process_traffic_lights e self) = Inr (-1, PyInt (UNKNOWN e)))
      \<and> (n < length (stop_lines self @ cws) \<and> (stop_lines self @ cws) ! n = c + 149
          \<and> (\<forall>j<n. \<not> (c < (stop_lines self @ cws) ! j \<and> (stop_lines self @ cws) ! j < c + 150))
           \<longrightarrow> fst (process_traffic_lights e
                      (self\<lparr>has_image := Some True, camera_image := Some msg\<rparr>))
                 = Inr (c + 149, PyInt (get_classification e msg)))
      \<and> (fst (process_traffic_lights e self) = Inr (w, s)
           \<longrightarrow> (w = -1 \<and> s = PyInt (UNKNOWN e))
               \<or> (w \<in> set (stop_lines self @ cws) \<and> c < w \<and> w < c + 150)))"
proof (intro conjI impI)
  assume a: "k < length sls \<and> sls ! k = car + 149
      \<and> (\<forall>j<k. \<not> (car < sls ! j \<and> sls ! j < car + 150))"
  then have "select_light car sls = (Some k, sls ! k)"
    by (intro select_light_first) auto
  with a show "select_light car sls = (Some k, car + 149)" by simp
next
  assume "select_light car sls = (Some i, wp)"
  from select_light_some[OF this] show "wp \<in> set sls" "car < wp" "wp < car + 150"
    by auto
next
  assume "\<forall>x\<in>set sls. \<not> (car < x \<and> x < car + 150)"
  then show "select_light car sls = (None, -1)" by (rule select_light_none)
next
  assume r: "closest_waypoints e self (config self) = Inr cws \<and> pose self = Some p
        \<and> get_closest_waypoint e self p = Inr c"
    and a: "\<forall>x\<in>set (stop_lines self @ cws). \<not> (c < x \<and> x < c + 150)"
  from a have "select_light c (stop_lines self @ cws) = (None, -1)"
    by (rule select_light_none)
  with r have "process_traffic_lights e self =
           (Inr (-1, PyInt (UNKNOWN e)), self\<lparr>stop_lines := stop_lines self @ cws\<rparr>)"
    by (intro process_traffic_lights_no_candidate[where p = p and car = c and w = "-1"]) auto
  then show "fst (process_traffic_lights e self) = Inr (-1, PyInt (UNKNOWN e))" by simp
next
  let ?sls = "stop_lines self @ cws"
  assume r: "closest_waypoints e self (config self) = Inr cws \<and> pose self = Some p
        \<and> get_closest_waypoint e self p = Inr c"
    and a: "n < length ?sls \<and> ?sls ! n = c + 149
          \<and> (\<forall>j<n. \<not> (c < ?sls ! j \<and> ?sls ! j < c + 150))"
  from a have "select_light c ?sls = (Some n, ?sls ! n)"
    by (intro select_light_first) auto
  with a have sel: "select_light c ?sls = (Some n, c + 149)" by simp
  from r have r1: "closest_waypoints e self (config self) = Inr cws"
    and r2: "pose self = Some p" and r3: "get_closest_waypoint e self p = Inr c" by simp_all
  show "fst (process_traffic_lights e (self\<lparr>has_image := Some True, camera_image := Some msg\<rparr>))
                 = Inr (c + 149, PyInt (get_classification e msg))"
    using r1 r2 r3 sel by (rule process_traffic_lights_candidate)
next
  assume r: "closest_waypoints e self (config self) = Inr cws \<and> pose self = Some p
        \<and> get_closest_waypoint e self p = Inr c"
    and a: "fst (process_traffic_lights e self) = Inr (w, s)"
  from r have r1: "closest_waypoints e self (config self) = Inr cws"
    and r2: "pose self = Some p" and r3: "get_closest_waypoint e self p = Inr c" by simp_all
  show "(w = -1 \<and> s = PyInt (UNKNOWN e))
               \<or> (w \<in> set (stop_lines self @ cws) \<and> c < w \<and> w < c + 150)"
    using r1 r2 r3 a by (rule process_traffic_lights_result)
qed

theorem horizon_boundary_witness:
  "select_light 60 [59, 60, 210, 209] = (Some 3, 209)
   \<and> select_light 60 [59, 60, 210, 500] = (None, -1)
   \<and> fst (process_traffic_lights (styx_env (\<lambda>u. 0)) horizon_detector) = Inr (-1, PyInt 4)
   \<and> fst (process_traffic_lights (styx_env (\<lambda>u. 0))
        ((straight_detector [(149, 0)])\<lparr>has_image := Some True, camera_image := Some ()\<rparr>))
      = Inr (149, PyInt 0)"
proof -
  let ?e = "styx_env (\<lambda>u::unit. 0)"
  let ?sls = "[59, 60, 210, 209::int]"
  have q: "\<forall>j<3. \<not> (60 < ?sls ! j \<and> ?sls ! j < 60 + 150)"
    by (auto simp: less_Suc_eq numeral_3_eq_3)
  have a: "select_light 60 ?sls = (Some 3, 60 + 149)"
    by (rule horizon_boundary[THEN conjunct1, THEN mp]) (use q in simp)
  have b: "select_light 60 [59, 60, 210, 500] = (None, -1)"
    by (rule horizon_boundary[THEN conjunct2, THEN conjunct2, THEN conjunct1, THEN mp]) simp
  have cw: "closest_waypoints ?e horizon_detector (config horizon_detector) = Inr [0]"
    by (simp add: horizon_detector_def pose_cb_def waypoints_cb_def init_def
        get_closest_stoplight_waypoint_def get_closest_waypoint_def cdist_def)
  have ps: "pose horizon_detector = Some (5, 0, 0)"
    by (simp add: horizon_detector_def pose_cb_def)
  have car: "get_closest_waypoint ?e horizon_detector (5, 0, 0) = Inr 0"
    by (simp add: horizon_detector_def pose_cb_def waypoints_cb_def init_def
        get_closest_waypoint_def cdist_def)
  have sl: "stop_lines horizon_detector = []"
    by (simp add: horizon_detector_def pose_cb_def waypoints_cb_def init_def)
  have c: "fst (process_traffic_lights ?e horizon_detector) = Inr (-1, PyInt (UNKNOWN ?e))"
    by (rule horizon_boundary[where cws = "[0]" and p = "(5, 0, 0)" and c = 0,
          THEN conjunct2, THEN conjunct2, THEN conjunct2, THEN mp, THEN conjunct1, THEN mp])
      (simp_all add: cw ps car sl)
  let ?sd = "straight_detector [(149, 0)]"
  have cw2: "closest_waypoints ?e ?sd (config ?sd) = Inr [149]"
    by (simp only: straight_detector_facts straight_detector_resolve)
  have car2: "get_closest_waypoint ?e ?sd (0, 0, 0) = Inr 0"
    by (rule straight_detector_resolve)
  have d: "fst (process_traffic_lights ?e (?sd\<lparr>has_image := Some True, camera_image := Some ()\<rparr>))
      = Inr (0 + 149, PyInt (get_classification ?e ()))"
    by (rule horizon_boundary[where self = ?sd and cws = "[149]" and p = "(0, 0, 0)" and c = 0
          and n = 0,
          THEN conjunct2, THEN conjunct2, THEN conjunct2, THEN mp, THEN conjunct2,
          THEN conjunct1, THEN mp])
      (simp_all add: cw2 car2 straight_detector_facts(2,4))
  from a b c d show ?thesis by (simp add: styx_env_def)
qed

text \<open>
  The claim as stated has a stop line at \<open>car + 149\<close> selected whatever else is
  configured. With the car at waypoint 0 and stop lines at waypoints 100 and 149, in
  this order, the one at 100 is selected: by the scan, and by
  \<open>process_traffic_lights\<close> on the straight path.
\<close>

theorem later_stop_line_at_149_not_selected:
  "select_light 0 [100, 149] = (Some 0, 100)
   \<and> closest_waypoints (styx_env (\<lambda>u. 0)) (straight_detector [(100, 0), (149, 0)])
        (config (straight_detector [(100, 0), (149, 0)])) = Inr [100, 149]
   \<and> get_closest_waypoint (styx_env (\<lambda>u. 0)) (straight_detector [(100, 0), (149, 0)]) (0, 0, 0)
        = Inr 0
   \<and> fst (process_traffic_lights (styx_env (\<lambda>u. 0))
        ((straight_detector [(100, 0), (149, 0)])
           \<lparr>has_image := Some True, camera_image := Some ()\<rparr>))
      = Inr (100, PyInt 0)"
proof -
  let ?e = "styx_env (\<lambda>u::unit. 0)"
  let ?sd = "straight_detector [(100, 0), (149, 0)]"
  have sel: "select_light 0 [100, 149] = (Some 0, 100)" by (simp add: select_light_def)
  have cw: "closest_waypoints ?e ?sd (config ?sd) = Inr [100, 149]"
    by (simp only: straight_detector_facts straight_detector_resolve)
  have car: "get_closest_waypoint ?e ?sd (0, 0, 0) = Inr 0"
    by (rule straight_detector_resolve)
  have "select_light 0 (stop_lines ?sd @ [100, 149]) = (Some 0, 100)"
    using sel by (simp add: straight_detector_facts)
  from process_traffic_lights_candidate[OF cw straight_detector_facts(2) car this, of "()"]
  have "fst (process_traffic_lights ?e (?sd\<lparr>has_image := Some True, camera_image := Some ()\<rparr>))
      = Inr (100, PyInt 0)" by (simp add: styx_env_def)
  with sel cw car show ?thesis by simp
qed

subsection \<open>Order of the scan\<close>

text \<open>
  Claim C8. When at least one stop-line waypoint (and so also when more than one) lies
  strictly ahead of the car within the horizon, the candidate returned is the first such
  entry in the order of the scan; and this need not be the one closest to the car: there
  are a car index and a list for which the selected waypoint is farther ahead than
  another entry of the list that also lies ahead of the car.
\<close>

theorem first_qualifying_stop_line:
  "((\<exists>x\<in>set sls. car < x \<and> x < car + 150) \<longrightarrow>
      (\<exists>k<length sls. select_light car sls = (Some k, sls ! k)
          \<and> car < sls ! k \<and> sls ! k < car + 150
          \<and> (\<forall>j<k. \<not> (car < sls ! j \<and> sls ! j < car + 150))))
   \<and> (\<exists>c xs k wp j. select_light c xs = (Some k, wp) \<and> j < length xs
          \<and> c < xs ! j \<and> xs ! j < wp)"
proof (intro conjI impI)
  assume "\<exists>x\<in>set sls. car < x \<and> x < car + 150"
  from first_qualifying_index[OF this] obtain k where k: "k < length sls"
    "car < sls ! k \<and> sls ! k < car + 150"
    "\<forall>j<k. \<not> (car < sls ! j \<and> sls ! j < car + 150)" by blast
  have "select_light car sls = (Some k, sls ! k)" using k by (rule select_light_first)
  with k show "\<exists>k<length sls. select_light car sls = (Some k, sls ! k)
          \<and> car < sls ! k \<and> sls ! k < car + 150
          \<and> (\<forall>j<k. \<not> (car < sls ! j \<and> sls ! j < car + 150))" by blast
next
  have "select_light 0 [100, 50] = (Some 0, 100)"
    by (simp add: select_light_def)
  then have "select_light 0 [100, 50] = (Some 0, 100) \<and> (1::nat) < length [100, 50::int]
      \<and> (0::int) < [100, 50] ! 1 \<and> [100, 50::int] ! 1 < 100" by simp
  then show "\<exists>c xs k wp j. select_light c xs = (Some k, wp) \<and> j < length xs
          \<and> c < xs ! j \<and> xs ! j < wp" by blast
qed

theorem first_qualifying_stop_line_witness:
  "select_light 60 [500, 200, 100, 800] = (Some 1, 200)"
proof -
  let ?sls = "[500, 200, 100, 800::int]"
  have "\<exists>x\<in>set ?sls. 60 < x \<and> x < 60 + 150" by simp
  with first_qualifying_stop_line[of ?sls 60]
  obtain k where k: "k < length ?sls" "select_light 60 ?sls = (Some k, ?sls ! k)"
    "60 < ?sls ! k \<and> ?sls ! k < 60 + 150"
    "\<forall>j<k. \<not> (60 < ?sls ! j \<and> ?sls ! j < 60 + 150)" by blast
  from k(1) have "k = 0 \<or> k = 1 \<or> k = 2 \<or> k = 3" by auto
  moreover have "k \<noteq> 0" using k(3) by (cases "k = 0") simp_all
  moreover have "k \<noteq> 3" using k(3) by (cases "k = 3") simp_all
  moreover have "k \<noteq> 2"
  proof
    assume "k = 2"
    with k(4) have "\<forall>j<2. \<not> (60 < ?sls ! j \<and> ?sls ! j < 60 + 150)" by simp
    moreover have "(1::nat) < 2" by simp
    ultimately have "\<not> (60 < ?sls ! 1 \<and> ?sls ! 1 < 60 + 150)" by blast
    then show False by simp
  qed
  ultimately have "k = 1" by blast
  with k(2) show ?thesis by simp
qed


subsection \<open>Debounce\<close>

text \<open>
  Claim C1, as amended. Take a run of frames that all carry the raw state \<open>s\<close>, with
  candidates \<open>w1, w2, w3\<close> and then \<open>ws\<close>, starting from a stored state that differs
  from \<open>s\<close>. The stable decision \<open>last_wp\<close> is unchanged through the third frame, and
  the second and third frames publish it again. The commit comes with the fourth
  frame: the fourth and every later frame of the run publishes the value committed for
  its own candidate (the candidate when \<open>s\<close> is RED or YELLOW, otherwise -1), and that
  value is the stable decision after the frame. So the value published from the fourth
  frame on is one and the same as long as the candidate is.
\<close>

theorem debounce_commits_on_fourth_frame:
  assumes "\<not> py_eq (state self) s"
  shows "last_wp (debounce e self (w1, s)) = last_wp self
     \<and> published (debounce_frames e self [(w1, s), (w2, s), (w3, s)])
         = published (debounce e self (w1, s)) @ [last_wp self, last_wp self]
     \<and> last_wp (debounce_frames e self [(w1, s), (w2, s), (w3, s)]) = last_wp self
     \<and> published (debounce_frames e self ((w1, s) # (w2, s) # (w3, s) # map (\<lambda>w. (w, s)) ws))
         = published (debounce_frames e self [(w1, s), (w2, s), (w3, s)])
             @ map (\<lambda>w. committed_wp e w s) ws
     \<and> last_wp (debounce_frames e self ((w1, s) # (w2, s) # (w3, s) # map (\<lambda>w. (w, s)) ws))
         = (if ws = [] then last_wp self else committed_wp e (last ws) s)"
proof -
  let ?t1 = "self\<lparr>state := s, state_count := 1\<rparr>"
  let ?t2 = "?t1\<lparr>state_count := 2, published := published self @ [last_wp self]\<rparr>"
  let ?t3 = "?t1\<lparr>state_count := 3,
                published := published self @ [last_wp self, last_wp self]\<rparr>"
  have s1: "debounce e self (w1, s) = ?t1"
    using assms by (rule debounce_change)
  have s2: "debounce e ?t1 (w2, s) = ?t2"
    by (simp add: debounce_def Let_def STATE_COUNT_THRESHOLD_def py_eq_refl)
  have s3: "debounce e ?t2 (w3, s) = ?t3"
    by (simp add: debounce_def Let_def STATE_COUNT_THRESHOLD_def py_eq_refl)
  have three: "debounce_frames e self [(w1, s), (w2, s), (w3, s)] = ?t3"
    by (simp only: debounce_frames.simps s1 s2 s3)
  have rest: "debounce_frames e self ((w1, s) # (w2, s) # (w3, s) # map (\<lambda>w. (w, s)) ws)
      = debounce_frames e ?t3 (map (\<lambda>w. (w, s)) ws)"
    by (simp only: debounce_frames.simps s1 s2 s3)
  have "py_eq (state ?t3) s" "3 \<le> state_count ?t3"
    by (simp_all add: py_eq_refl)
  from debounce_commit_run[OF this, of e ws]
  have run: "published (debounce_frames e ?t3 (map (\<lambda>w. (w, s)) ws))
       = published ?t3 @ map (\<lambda>w. committed_wp e w s) ws"
    "last_wp (debounce_frames e ?t3 (map (\<lambda>w. (w, s)) ws))
       = (if ws = [] then last_wp ?t3 else committed_wp e (last ws) s)" by simp_all
  show ?thesis
    unfolding three rest s1 using run by simp
qed

theorem debounce_commits_on_fourth_frame_witness:
  "\<not> py_eq (state (init (styx_env (\<lambda>u::unit. 0)) [])) (PyInt 0)
   \<and> last_wp (init (styx_env (\<lambda>u::unit. 0)) []) = -1
   \<and> published (debounce_frames (styx_env (\<lambda>u::unit. 0)) (init (styx_env (\<lambda>u::unit. 0)) [])
        [(200, PyInt 0), (200, PyInt 0), (200, PyInt 0)]) = [-1, -1]
   \<and> last_wp (debounce_frames (styx_env (\<lambda>u::unit. 0)) (init (styx_env (\<lambda>u::unit. 0)) [])
        [(200, PyInt 0), (200, PyInt 0), (200, PyInt 0)]) = -1
   \<and> published (debounce_frames (styx_env (\<lambda>u::unit. 0)) (init (styx_env (\<lambda>u::unit. 0)) [])
        [(200, PyInt 0), (200, PyInt 0), (200, PyInt 0), (200, PyInt 0), (200, PyInt 0)])
       = [-1, -1, 200, 200]
   \<and> last_wp (debounce_frames (styx_env (\<lambda>u::unit. 0)) (init (styx_env (\<lambda>u::unit. 0)) [])
        [(200, PyInt 0), (200, PyInt 0), (200, PyInt 0), (200, PyInt 0), (200, PyInt 0)]) = 200"
proof -
  let ?e = "styx_env (\<lambda>u::unit. 0)"
  have n: "\<not> py_eq (state (init ?e [])) (PyInt 0)"
    by (simp add: init_def styx_env_def py_eq_def)
  have p1: "published (debounce ?e (init ?e []) (200, PyInt 0)) = []"
    using n by (simp add: debounce_def Let_def init_def)
  have c: "committed_wp ?e 200 (PyInt 0) = 200"
    by (simp add: committed_wp_def py_eq_def styx_env_def)
  have l: "last_wp (init ?e []) = -1" by (simp add: init_def)
  from debounce_commits_on_fourth_frame[OF n, of ?e 200 200 200 "[200, 200]"] n p1 c l
  show ?thesis by simp
qed

text \<open>
  The claim as stated puts the commit on the third frame and has every later frame
  publish the same value. Three frames classified RED on the two-point detector
  publish \<open>-1\<close> twice and leave the stable decision at \<open>-1\<close>; the fourth publishes
  the stop line's waypoint 1. And a fifth RED frame whose candidate has moved from 200
  to 300 publishes 300.
\<close>

theorem third_identical_frame_does_not_commit:
  "published (image_cbs (styx_env (\<lambda>u. 0)) two_point_detector [(), (), ()]) = [-1, -1]
   \<and> last_wp (image_cbs (styx_env (\<lambda>u. 0)) two_point_detector [(), (), ()]) = -1
   \<and> published (image_cbs (styx_env (\<lambda>u. 0)) two_point_detector [(), (), (), ()]) = [-1, -1, 1]
   \<and> published (debounce_frames (styx_env (\<lambda>u::unit. 0)) (init (styx_env (\<lambda>u::unit. 0)) [])
        [(200, PyInt 0), (200, PyInt 0), (200, PyInt 0), (200, PyInt 0), (300, PyInt 0)])
       = [-1, -1, 200, 300]"
  by (simp add: detector_defs step_defs)


subsection \<open>Selection from the accumulated list\<close>

text \<open>
  Claim C10. With the path and the configuration unchanged, so that the stored list is
  a number of copies of the resolved list \<open>cws\<close>, the candidate stop line and
  waypoint selected from the stored list extended by one more copy are those selected
  from the single list \<open>cws\<close>, and the processing step returns what it returns on a
  detector whose stored list is empty.
\<close>

theorem selection_invariant_under_accumulation:
  assumes "closest_waypoints e self (config self) = Inr cws"
    and "stop_lines self = concat (replicate k cws)"
  shows "select_light car (stop_lines self @ cws) = select_light car cws
     \<and> fst (process_traffic_lights e self) = fst (process_traffic_lights e (self\<lparr>stop_lines := []\<rparr>))"
proof
  show sel: "select_light car (stop_lines self @ cws) = select_light car cws"
    using assms(2) by (simp add: select_light_accumulated)
  let ?fresh = "self\<lparr>stop_lines := []\<rparr>"
  have cw: "closest_waypoints e ?fresh (config ?fresh) = Inr cws"
    using assms(1) closest_waypoints_cong[of ?fresh self e "config self"] by simp
  have g: "\<And>p. get_closest_waypoint e ?fresh p = get_closest_waypoint e self p"
    by (simp add: get_closest_waypoint_def)
  have l: "\<And>l. fst (get_light_state e ?fresh l) = fst (get_light_state e self l)"
    by (rule get_light_state_stop_lines)
  have s: "\<And>c. select_light c (stop_lines self @ cws) = select_light c cws"
    using assms(2) by (simp add: select_light_accumulated)
  show "fst (process_traffic_lights e self) = fst (process_traffic_lights e ?fresh)"
    by (simp add: process_traffic_lights_value[OF assms(1)] process_traffic_lights_value[OF cw]
        g l s cong: option.case_cong sum.case_cong prod.case_cong)
qed

theorem selection_invariant_under_accumulation_witness:
  "closest_waypoints (styx_env (\<lambda>u. 0)) (image_cbs (styx_env (\<lambda>u. 0)) two_point_detector [(), ()])
      (config (image_cbs (styx_env (\<lambda>u. 0)) two_point_detector [(), ()])) = Inr [1]
   \<and> stop_lines (image_cbs (styx_env (\<lambda>u. 0)) two_point_detector [(), ()]) = [1, 1]
   \<and> select_light 0 [1, 1, 1] = (Some 0, 1)
   \<and> fst (process_traffic_lights (styx_env (\<lambda>u. 0))
        (image_cbs (styx_env (\<lambda>u. 0)) two_point_detector [(), ()])) = Inr (1, PyInt 0)"
proof -
  let ?e = "styx_env (\<lambda>u::unit. 0)"
  let ?self = "image_cbs ?e two_point_detector [(), ()]"
  have a: "closest_waypoints (styx_env (\<lambda>u. 0)) ?self (config ?self) = Inr [1]"
    by (simp add: detector_defs step_defs)
  have b: "stop_lines ?self = concat (replicate 2 [1])"
    by (simp add: detector_defs step_defs numeral_2_eq_2)
  have c: "select_light 0 [1] = (Some 0, 1)" by (simp add: select_light_def)
  have d: "fst (process_traffic_lights ?e (?self\<lparr>stop_lines := []\<rparr>)) = Inr (1, PyInt 0)"
    by (simp add: detector_defs step_defs)
  from selection_invariant_under_accumulation[OF a b, of 0] c d
  have "select_light 0 (stop_lines ?self @ [1]) = (Some 0, 1)
     \<and> fst (process_traffic_lights ?e ?self) = Inr (1, PyInt 0)" by simp
  moreover have "stop_lines ?self = [1, 1]" using b by (simp add: numeral_2_eq_2)
  ultimately show ?thesis using a by simp
qed


subsection \<open>Resolution of the stop lines\<close>

text \<open>
  Claim C4, as amended. Resolving the configured stop lines is repeatable: after a
  decision cycle (whatever its outcome) the resolution gives the same result as before
  it, and a successful resolution has exactly one entry per configured stop line, the
  nearest waypoint of that stop line, in configuration order. The claim as stated also
  says that the stored list gains no entries; the run below shows one configured stop
  line and a stored list of one entry after the first cycle and two after the second.
\<close>

theorem stop_line_resolution_repeatable:
  "closest_waypoints e (snd (image_cb e self msg)) (config (snd (image_cb e self msg)))
     = closest_waypoints e self (config self)
   \<and> (closest_waypoints e self (config self) = Inr cws \<longrightarrow>
        length cws = length (config self)
        \<and> (\<forall>i<length cws. get_closest_stoplight_waypoint e self (config self ! i) = Inr (cws ! i)))"
proof (intro conjI impI)
  show "closest_waypoints e (snd (image_cb e self msg)) (config (snd (image_cb e self msg)))
     = closest_waypoints e self (config self)"
    using image_cb_frame[of e self msg]
      closest_waypoints_cong[of "snd (image_cb e self msg)" self e "config self"]
    by simp
next
  assume a: "closest_waypoints e self (config self) = Inr cws"
  from closest_waypoints_entries[OF a] show "length cws = length (config self)"
    "\<forall>i<length cws. get_closest_stoplight_waypoint e self (config self ! i) = Inr (cws ! i)"
    by simp_all
qed

theorem stop_line_resolution_repeatable_witness:
  "closest_waypoints (styx_env (\<lambda>u. 0)) two_point_detector (config two_point_detector) = Inr [1]
   \<and> closest_waypoints (styx_env (\<lambda>u. 0)) (snd (image_cb (styx_env (\<lambda>u. 0)) two_point_detector ()))
        (config (snd (image_cb (styx_env (\<lambda>u. 0)) two_point_detector ()))) = Inr [1]
   \<and> length [1::int] = length (config two_point_detector)
   \<and> get_closest_stoplight_waypoint (styx_env (\<lambda>u. 0)) two_point_detector (config two_point_detector ! 0) = Inr 1"
proof -
  have a: "closest_waypoints (styx_env (\<lambda>u. 0)) two_point_detector (config two_point_detector) = Inr [1]"
    by (simp add: detector_defs step_defs)
  note r = stop_line_resolution_repeatable[of "styx_env (\<lambda>u. 0)" two_point_detector "()" "[1]"]
  from r a have b: "closest_waypoints (styx_env (\<lambda>u. 0)) (snd (image_cb (styx_env (\<lambda>u. 0)) two_point_detector ()))
        (config (snd (image_cb (styx_env (\<lambda>u. 0)) two_point_detector ()))) = Inr [1]"
    by simp
  from r a have c: "length [1::int] = length (config two_point_detector)" by blast
  from r a have "\<forall>i<length [1::int].
      get_closest_stoplight_waypoint (styx_env (\<lambda>u. 0)) two_point_detector (config two_point_detector ! i) = Inr ([1] ! i)"
    by blast
  then have d: "get_closest_stoplight_waypoint (styx_env (\<lambda>u. 0)) two_point_detector (config two_point_detector ! 0) = Inr 1"
    by simp
  from a b c d show ?thesis by blast
qed

theorem stored_stop_lines_grow:
  "length (config two_point_detector) = 1
   \<and> stop_lines (image_cbs (styx_env (\<lambda>u. 0)) two_point_detector [()]) = [1]
   \<and> stop_lines (image_cbs (styx_env (\<lambda>u. 0)) two_point_detector [(), ()]) = [1, 1]"
  by (simp add: detector_defs step_defs)


subsection \<open>No vehicle pose\<close>

text \<open>
  Claim C9, as amended. With no vehicle pose and a path snapshot that has at least one
  waypoint (or with no stop line configured), the processing step returns
  \<open>(-1, UNKNOWN)\<close> and gives no image to the classifier. The claim as stated covers a
  path snapshot with no waypoints as well; there the resolution of a configured stop
  line raises \<open>ValueError\<close>.
\<close>

theorem process_without_pose:
  assumes "pose self = None" and "waypoints self = Some wps"
    and "wps \<noteq> [] \<or> config self = []"
  shows "fst (process_traffic_lights e self) = Inr (-1, PyInt (UNKNOWN e))
     \<and> classified (snd (process_traffic_lights e self)) = classified self"
proof -
  have "\<exists>cws. closest_waypoints e self (config self) = Inr cws"
  proof (cases "config self = []")
    case True
    then show ?thesis by simp
  next
    case False
    with assms(3) have "wps \<noteq> []" by simp
    with assms(2) show ?thesis by (rule closest_waypoints_total)
  qed
  then obtain cws where "closest_waypoints e self (config self) = Inr cws" ..
  with assms(1) show ?thesis by (simp add: process_traffic_lights_def)
qed

theorem process_without_pose_witness:
  "pose (waypoints_cb (init (styx_env (\<lambda>u::unit. 0)) [(1, 0)]) [(0, 0, 0), (1, 0, 0)]) = None
   \<and> fst (process_traffic_lights (styx_env (\<lambda>u::unit. 0))
        (waypoints_cb (init (styx_env (\<lambda>u::unit. 0)) [(1, 0)]) [(0, 0, 0), (1, 0, 0)]))
      = Inr (-1, PyInt 4)
   \<and> classified (snd (process_traffic_lights (styx_env (\<lambda>u::unit. 0))
        (waypoints_cb (init (styx_env (\<lambda>u::unit. 0)) [(1, 0)]) [(0, 0, 0), (1, 0, 0)]))) = []"
proof -
  let ?e = "styx_env (\<lambda>u::unit. 0)"
  let ?self = "waypoints_cb (init ?e [(1, 0)]) [(0, 0, 0), (1, 0, 0)]"
  have p: "pose ?self = None" by (simp add: waypoints_cb_def init_def)
  have w: "waypoints ?self = Some [(0, 0, 0), (1, 0, 0)]" by (simp add: waypoints_cb_def)
  have n: "[(0, 0, 0), (1::real, 0::real, 0::real)] \<noteq> [] \<or> config ?self = []" by simp
  from process_without_pose[OF p w n, of ?e] p show ?thesis
    by (simp add: styx_env_def waypoints_cb_def init_def)
qed

theorem process_without_pose_empty_path:
  "pose (waypoints_cb (init (styx_env (\<lambda>u::unit. 0)) [(1, 0)]) []) = None
   \<and> waypoints (waypoints_cb (init (styx_env (\<lambda>u::unit. 0)) [(1, 0)]) []) = Some []
   \<and> fst (process_traffic_lights (styx_env (\<lambda>u::unit. 0))
        (waypoints_cb (init (styx_env (\<lambda>u::unit. 0)) [(1, 0)]) [])) = Inl ValueError"
  by (simp add: detector_defs step_defs)


subsection \<open>Light state without an image\<close>




subsection \<open>Runs in which the code departs from its own documentation\<close>

text \<open>
  Claim C2. It says that a frame arriving before any path completes without an
  exception and publishes -1. The run: a detector fresh from \<open>init\<close> with one
  configured stop line gets a frame; \<open>get_closest_waypoint\<close> logs that there are no
  waypoints and then reads the unbound \<open>nearest_index\<close>, the exception leaves
  \<open>image_cb\<close>, and nothing is published.
\<close>

theorem frame_without_path_raises:
  "waypoints (init (styx_env (\<lambda>u::unit. 0)) [(1, 0)]) = None
   \<and> fst (image_cb (styx_env (\<lambda>u::unit. 0)) (init (styx_env (\<lambda>u::unit. 0)) [(1, 0)]) ())
       = Some UnboundLocalError
   \<and> published (snd (image_cb (styx_env (\<lambda>u::unit. 0)) (init (styx_env (\<lambda>u::unit. 0)) [(1, 0)]) ()))
       = []"
  by (simp add: detector_defs step_defs)

text \<open>
  Claim C3. It says that every frame publishes exactly one integer, also when the raw
  state differs from the previous one. The run: the first frame of the two-point
  detector is classified RED while the stored state is UNKNOWN; the frame completes
  without an exception and publishes nothing.
\<close>

theorem state_change_frame_publishes_nothing:
  "fst (image_cb (styx_env (\<lambda>u. 0)) two_point_detector ()) = None
   \<and> state two_point_detector = PyInt 4
   \<and> state (snd (image_cb (styx_env (\<lambda>u. 0)) two_point_detector ())) = PyInt 0
   \<and> published (snd (image_cb (styx_env (\<lambda>u. 0)) two_point_detector ())) = []"
  by (simp add: detector_defs step_defs)

subsection \<open>What one frame publishes\<close>

text \<open>
  Whatever the outcome of a frame, \<open>image_cb\<close> keeps the messages published so far and
  adds at most one.
\<close>

theorem image_cb_publishes_at_most_once:
  "\<exists>vs. published (snd (image_cb e self msg)) = published self @ vs \<and> length vs \<le> 1"
proof -
  let ?self0 = "self\<lparr>has_image := Some True, camera_image := Some msg\<rparr>"
  obtain r self1 where p: "process_traffic_lights e ?self0 = (r, self1)" by force
  with process_traffic_lights_published[of e ?self0]
  have pub: "published self1 = published self" by simp
  show ?thesis
  proof (cases r)
    case (Inl err)
    with p pub show ?thesis by (simp add: image_cb_def)
  next
    case (Inr v)
    from debounce_published[of e self1 v] pub p Inr show ?thesis
      by (simp add: image_cb_def)
  qed
qed

end
